theory Spec2Isabelle
  imports Complex_Main "HOL-Library.Log_Nat"
begin

section \<open>Errors\<close>

text \<open>
  The Python exceptions that the modelled methods can raise. A method that can raise
  returns \<open>py_error + 'a\<close>, with \<open>Inl\<close> for the exception.
\<close>

datatype py_error = ZeroDivisionError | ValueError | OverflowError | IndexError

section \<open>The tile carousel (class ScrollableAlbumArea)\<close>

text \<open>
  An \<open>AlbumTile\<close> is kept with the two fields the carousel logic reads: its title
  and its \<open>music_path\<close>, which is \<open>None\<close> for a tile built without a path.
\<close>

record album_tile =
  title :: string
  music_path :: "string option"

text \<open>
  \<open>tiles\<close> and \<open>current_index\<close> are the attributes of the class. \<open>layout\<close> is
  the content of the grid layout: the tiles handed to \<open>addWidget\<close>, each with its
  column, in the order of the calls.
\<close>

record scroll_area =
  tiles :: "album_tile list"
  current_index :: int
  layout :: "(album_tile \<times> nat) list"

definition init_scroll_area :: scroll_area where
  "init_scroll_area = \<lparr>tiles = [], current_index = 0, layout = []\<rparr>"

text \<open>
  The loop \<open>for i in range(3)\<close> of \<open>update_visible_tiles\<close>, from column \<open>i\<close> on,
  with \<open>n\<close> columns left. Python's \<open>%\<close> raises on a zero divisor; with a positive
  divisor it is the floor modulus, which is \<open>mod\<close> on \<open>int\<close>.
\<close>

fun add_visible :: "scroll_area \<Rightarrow> nat \<Rightarrow> nat \<Rightarrow> py_error + scroll_area" where
  "add_visible s i 0 = Inr s"
| "add_visible s i (Suc n) =
     (if length (tiles s) = 0 then Inl ZeroDivisionError
      else
        let idx = (current_index s + int i) mod int (length (tiles s)) in
        if idx < int (length (tiles s))
        then add_visible (s\<lparr>layout := layout s @ [(tiles s ! nat idx, i)]\<rparr>) (Suc i) n
        else add_visible s (Suc i) n)"

definition update_visible_tiles :: "scroll_area \<Rightarrow> py_error + scroll_area" where
  "update_visible_tiles s = add_visible (s\<lparr>layout := []\<rparr>) 0 3"

definition scroll_left :: "scroll_area \<Rightarrow> py_error + scroll_area" where
  "scroll_left s =
     (if length (tiles s) \<le> 3 then Inr s
      else update_visible_tiles
             (s\<lparr>current_index := (current_index s - 1) mod int (length (tiles s))\<rparr>))"

definition scroll_right :: "scroll_area \<Rightarrow> py_error + scroll_area" where
  "scroll_right s =
     (if length (tiles s) \<le> 3 then Inr s
      else update_visible_tiles
             (s\<lparr>current_index := (current_index s + 1) mod int (length (tiles s))\<rparr>))"

definition add_tile :: "scroll_area \<Rightarrow> album_tile \<Rightarrow> py_error + scroll_area" where
  "add_tile s t = update_visible_tiles (s\<lparr>tiles := tiles s @ [t]\<rparr>)"

text \<open>
  \<open>play_current\<close> picks the centre tile and emits its \<open>clicked\<close> signal when its
  \<open>music_path\<close> is truthy (neither \<open>None\<close> nor the empty string). \<open>center_tile\<close> is
  the tile it picks, \<open>None\<close> when the method returns before picking one; the result
  of \<open>play_current\<close> is the path emitted, if any.
\<close>

definition center_tile :: "scroll_area \<Rightarrow> album_tile option" where
  "center_tile s =
     (if length (tiles s) \<le> 3 then None
      else Some (tiles s ! nat ((current_index s + 1) mod int (length (tiles s)))))"

definition play_current :: "scroll_area \<Rightarrow> string option" where
  "play_current s =
     (case center_tile s of
        None \<Rightarrow> None
      | Some t \<Rightarrow>
          (case music_path t of
             None \<Rightarrow> None
           | Some p \<Rightarrow> if p = [] then None else Some p))"

text \<open>The tiles shown, column by column, as they were handed to the layout.\<close>

definition visible_window :: "scroll_area \<Rightarrow> album_tile list" where
  "visible_window s = map fst (layout s)"

text \<open>
  A sequence of carousel operations, run in order; the first exception ends the run.
\<close>

fun run :: "('s \<Rightarrow> py_error + 's) list \<Rightarrow> 's \<Rightarrow> py_error + 's" where
  "run [] s = Inr s"
| "run (f # fs) s = (case f s of Inl e \<Rightarrow> Inl e | Inr s' \<Rightarrow> run fs s')"

definition window_after ::
  "(scroll_area \<Rightarrow> py_error + scroll_area) list \<Rightarrow> scroll_area \<Rightarrow> py_error + album_tile list" where
  "window_after ops s = (case run ops s of Inl e \<Rightarrow> Inl e | Inr s' \<Rightarrow> Inr (visible_window s'))"

text \<open>Five tiles with paths, as \<open>load_music_library\<close> builds them, for the examples.\<close>

definition item0 :: album_tile where
  "item0 = \<lparr>title = ''a.mp3'', music_path = Some ''data/a.mp3''\<rparr>"

definition item1 :: album_tile where
  "item1 = \<lparr>title = ''b.mp3'', music_path = Some ''data/b.mp3''\<rparr>"

definition item2 :: album_tile where
  "item2 = \<lparr>title = ''c.mp3'', music_path = Some ''data/c.mp3''\<rparr>"

definition item3 :: album_tile where
  "item3 = \<lparr>title = ''d.mp3'', music_path = Some ''data/d.mp3''\<rparr>"

definition item4 :: album_tile where
  "item4 = \<lparr>title = ''e.mp3'', music_path = Some ''data/e.mp3''\<rparr>"

definition carousel_of :: "album_tile list \<Rightarrow> scroll_area" where
  "carousel_of ts = \<lparr>tiles = ts, current_index = 0, layout = []\<rparr>"

section \<open>Python strings\<close>

text \<open>
  A Python string is modelled as a list of characters, each standing for one code
  point below 256. \<open>strip\<close> removes the characters for which \<open>str.isspace\<close> holds:
  among those code points, 9 to 13, 28 to 32, 133 and 160.
\<close>

definition is_space :: "char \<Rightarrow> bool" where
  "is_space c =
     (let n = (of_char c :: nat) in (9 \<le> n \<and> n \<le> 13) \<or> (28 \<le> n \<and> n \<le> 32) \<or> n = 133 \<or> n = 160)"

definition strip :: "string \<Rightarrow> string" where
  "strip s = rev (dropWhile is_space (rev (dropWhile is_space s)))"

text \<open>\<open>s.split(c)\<close> for a one-character separator: every occurrence splits.\<close>

fun split_on :: "char \<Rightarrow> string \<Rightarrow> string list" where
  "split_on c [] = [[]]"
| "split_on c (x # xs) =
     (if x = c then [] # split_on c xs
      else (case split_on c xs of [] \<Rightarrow> [[x]] | p # ps \<Rightarrow> (x # p) # ps))"

text \<open>\<open>s.find(c)\<close>: the index of the first occurrence, or \<open>-1\<close>.\<close>

fun find_char :: "char \<Rightarrow> string \<Rightarrow> int" where
  "find_char c [] = - 1"
| "find_char c (x # xs) =
     (if x = c then 0 else (let r = find_char c xs in if r = - 1 then - 1 else r + 1))"

definition startswith :: "string \<Rightarrow> char \<Rightarrow> bool" where
  "startswith s c = (case s of [] \<Rightarrow> False | x # _ \<Rightarrow> x = c)"

section \<open>Python floats\<close>

text \<open>
  A \<open>float\<close> is an IEEE 754 binary64 value. A finite one is kept as the rational
  number it denotes (the two zeros are not told apart: no operation below depends on
  the sign of a zero). Every operation returns the exact result rounded to the nearest
  binary64 value, ties to the even significand; \<open>round64\<close> is that rounding, with 53
  bits of precision, the least quantum \<open>2^-1074\<close> and overflow to infinity from
  \<open>2^1024\<close> on.
\<close>

datatype pyfloat = Finite rat | PosInf | NegInf | NaN

definition pow2 :: "int \<Rightarrow> rat" where
  "pow2 e = (if 0 \<le> e then 2 ^ nat e else 1 / 2 ^ nat (- e))"

text \<open>For \<open>x > 0\<close>, the exponent \<open>e\<close> with \<open>2^e \<le> x < 2^(e+1)\<close>.\<close>

definition ilog2 :: "rat \<Rightarrow> int" where
  "ilog2 x = (if 1 \<le> x then bitlen \<lfloor>x\<rfloor> - 1 else - bitlen (\<lceil>1 / x\<rceil> - 1))"

definition round_to_even :: "rat \<Rightarrow> int" where
  "round_to_even x =
     (let f = \<lfloor>x\<rfloor>; d = x - of_int f in
      if d < 1 / 2 then f
      else if 1 / 2 < d then f + 1
      else if even f then f else f + 1)"

definition round64 :: "rat \<Rightarrow> pyfloat" where
  "round64 x =
     (if x = 0 then Finite 0
      else
        let e = max (ilog2 \<bar>x\<bar> - 52) (- 1074);
            r = of_int (round_to_even (x / pow2 e)) * pow2 e
        in if 2 ^ 1024 \<le> r then PosInf
           else if r \<le> - (2 ^ 1024) then NegInf
           else Finite r)"

fun fmul :: "pyfloat \<Rightarrow> pyfloat \<Rightarrow> pyfloat" where
  "fmul NaN _ = NaN"
| "fmul _ NaN = NaN"
| "fmul (Finite x) (Finite y) = round64 (x * y)"
| "fmul (Finite x) PosInf = (if x = 0 then NaN else if 0 < x then PosInf else NegInf)"
| "fmul (Finite x) NegInf = (if x = 0 then NaN else if 0 < x then NegInf else PosInf)"
| "fmul PosInf (Finite y) = (if y = 0 then NaN else if 0 < y then PosInf else NegInf)"
| "fmul NegInf (Finite y) = (if y = 0 then NaN else if 0 < y then NegInf else PosInf)"
| "fmul PosInf PosInf = PosInf"
| "fmul PosInf NegInf = NegInf"
| "fmul NegInf PosInf = NegInf"
| "fmul NegInf NegInf = PosInf"

fun fadd :: "pyfloat \<Rightarrow> pyfloat \<Rightarrow> pyfloat" where
  "fadd NaN _ = NaN"
| "fadd _ NaN = NaN"
| "fadd (Finite x) (Finite y) = round64 (x + y)"
| "fadd (Finite x) PosInf = PosInf"
| "fadd (Finite x) NegInf = NegInf"
| "fadd PosInf (Finite y) = PosInf"
| "fadd NegInf (Finite y) = NegInf"
| "fadd PosInf PosInf = PosInf"
| "fadd PosInf NegInf = NaN"
| "fadd NegInf PosInf = NaN"
| "fadd NegInf NegInf = NegInf"

text \<open>
  \<open>int(x)\<close> truncates toward zero; it raises \<open>OverflowError\<close> on an infinity and
  \<open>ValueError\<close> on a NaN.
\<close>

fun int_of_float :: "pyfloat \<Rightarrow> py_error + int" where
  "int_of_float (Finite x) = Inr (if 0 \<le> x then \<lfloor>x\<rfloor> else \<lceil>x\<rceil>)"
| "int_of_float PosInf = Inl OverflowError"
| "int_of_float NegInf = Inl OverflowError"
| "int_of_float NaN = Inl ValueError"

subsection \<open>\<open>float(s)\<close> for a string\<close>

text \<open>
  \<open>float\<close> removes white space at both ends (code points 9 to 13 and 32, and the
  white space beyond ASCII, 133 and 160 here). An underscore is allowed between two
  digits only, and is dropped. What remains must be, in full, an optional sign
  followed by \<open>inf\<close>, \<open>infinity\<close> or \<open>nan\<close> in any case, or an optional sign, decimal
  digits with an optional point (at least one digit in all) and an optional exponent
  \<open>e\<close> or \<open>E\<close>, optional sign, at least one digit. The decimal number read is then
  rounded to the nearest binary64 value. Anything else raises \<open>ValueError\<close>.
\<close>

definition is_float_space :: "char \<Rightarrow> bool" where
  "is_float_space c =
     (let n = (of_char c :: nat) in (9 \<le> n \<and> n \<le> 13) \<or> n = 32 \<or> n = 133 \<or> n = 160)"

definition is_digit :: "char \<Rightarrow> bool" where
  "is_digit c = (let n = (of_char c :: nat) in 48 \<le> n \<and> n \<le> 57)"

definition digit_val :: "char \<Rightarrow> nat" where
  "digit_val c = of_char c - 48"

text \<open>The number a string of decimal digits denotes, after the digits read so far.\<close>

fun dec_of :: "nat \<Rightarrow> string \<Rightarrow> nat" where
  "dec_of acc [] = acc"
| "dec_of acc (c # cs) = dec_of (10 * acc + digit_val c) cs"

text \<open>
  The underscores of a numeric literal: each must stand right after a digit and right
  before one. \<open>prev\<close> is the character before; the result is the string without
  its underscores, or \<open>None\<close>.
\<close>

fun drop_underscores :: "char \<Rightarrow> string \<Rightarrow> string option" where
  "drop_underscores prev [] = (if prev = CHR ''_'' then None else Some [])"
| "drop_underscores prev (c # cs) =
     (if c = CHR ''_'' then
        (if is_digit prev then drop_underscores c cs else None)
      else if prev = CHR ''_'' \<and> \<not> is_digit c then None
      else map_option ((#) c) (drop_underscores c cs))"

definition lower :: "char \<Rightarrow> char" where
  "lower c = (let n = (of_char c :: nat) in if 65 \<le> n \<and> n \<le> 90 then char_of (n + 32) else c)"

definition signed :: "bool \<Rightarrow> pyfloat \<Rightarrow> pyfloat" where
  "signed neg x =
     (if neg then (case x of Finite r \<Rightarrow> Finite (- r) | PosInf \<Rightarrow> NegInf | NegInf \<Rightarrow> PosInf | NaN \<Rightarrow> NaN)
      else x)"

definition parse_inf_or_nan :: "string \<Rightarrow> pyfloat option" where
  "parse_inf_or_nan s =
     (let neg = startswith s CHR ''-'';
          body = map lower (if startswith s CHR ''-'' \<or> startswith s CHR ''+'' then tl s else s)
      in if body = ''inf'' \<or> body = ''infinity'' then Some (signed neg PosInf)
         else if body = ''nan'' then Some NaN
         else None)"

text \<open>
  The exponent part, given what follows the digits: \<open>Some 0\<close> when nothing follows,
  \<open>Some e\<close> for a complete exponent, \<open>None\<close> when something is left unread.
\<close>

definition parse_exponent :: "string \<Rightarrow> int option" where
  "parse_exponent s =
     (if s = [] then Some 0
      else if startswith s CHR ''e'' \<or> startswith s CHR ''E'' then
        let r = tl s;
            neg = startswith r CHR ''-'';
            ds = (if startswith r CHR ''-'' \<or> startswith r CHR ''+'' then tl r else r)
        in if ds \<noteq> [] \<and> list_all is_digit ds
           then Some (if neg then - int (dec_of 0 ds) else int (dec_of 0 ds))
           else None
      else None)"

text \<open>
  The decimal literal. The converter refuses a literal with more than \<open>10^9\<close>
  significant digits or more than \<open>10^9\<close> digits after the point.
\<close>

definition parse_decimal :: "string \<Rightarrow> pyfloat option" where
  "parse_decimal s =
     (let neg = startswith s CHR ''-'';
          body = (if startswith s CHR ''-'' \<or> startswith s CHR ''+'' then tl s else s);
          ip = takeWhile is_digit body;
          r1 = dropWhile is_digit body;
          fp = (if startswith r1 CHR ''.'' then takeWhile is_digit (tl r1) else []);
          r2 = (if startswith r1 CHR ''.'' then dropWhile is_digit (tl r1) else r1);
          sig = dropWhile (\<lambda>c. c = CHR ''0'') (ip @ fp)
      in if ip = [] \<and> fp = [] then None
         else if 1000000000 < int (length sig) \<or> 1000000000 < int (length fp) then None
         else
           (case parse_exponent r2 of
              None \<Rightarrow> None
            | Some e \<Rightarrow>
                let k = e - int (length fp);
                    d = of_nat (dec_of 0 (ip @ fp));
                    v = (if 0 \<le> k then d * 10 ^ nat k else d / 10 ^ nat (- k))
                in Some (signed neg (round64 v))))"

definition float_of_string :: "string \<Rightarrow> py_error + pyfloat" where
  "float_of_string s =
     (let t = rev (dropWhile is_float_space (rev (dropWhile is_float_space s))) in
      case drop_underscores (CHR ''x'') t of
        None \<Rightarrow> Inl ValueError
      | Some u \<Rightarrow>
          (case parse_decimal u of
             Some x \<Rightarrow> Inr x
           | None \<Rightarrow>
               (case parse_inf_or_nan u of
                  Some x \<Rightarrow> Inr x
                | None \<Rightarrow> Inl ValueError)))"

section \<open>The lyrics panel (class LyricsTile)\<close>

text \<open>
  The body of the \<open>try\<close> block of \<open>parse_lrc_time\<close>: \<open>time_str[1:-1]\<close> split at
  the colons must give exactly two parts (unpacking raises \<open>ValueError\<close> otherwise),
  both are converted by \<open>float\<close>, and the total is multiplied by 1000 and truncated.
\<close>

definition parse_lrc_time_try :: "string \<Rightarrow> py_error + int" where
  "parse_lrc_time_try time_str =
     (case split_on CHR '':'' (butlast (tl time_str)) of
        [minutes, seconds] \<Rightarrow>
          (case float_of_string minutes of
             Inl e \<Rightarrow> Inl e
           | Inr fm \<Rightarrow>
               (case float_of_string seconds of
                  Inl e \<Rightarrow> Inl e
                | Inr fs \<Rightarrow>
                    int_of_float (fmul (fadd (fmul fm (Finite 60)) fs) (Finite 1000))))
      | _ \<Rightarrow> Inl ValueError)"

text \<open>The bare \<open>except\<close> turns every exception into the result 0.\<close>

definition parse_lrc_time :: "string \<Rightarrow> int" where
  "parse_lrc_time time_str = (case parse_lrc_time_try time_str of Inl e \<Rightarrow> 0 | Inr ms \<Rightarrow> ms)"

lemma length_strip_le: "length (strip s) \<le> length s"
proof -
  have "length (strip s) \<le> length (dropWhile is_space s)"
    unfolding strip_def using length_dropWhile_le [of is_space "rev (dropWhile is_space s)"]
    by simp
  also have "\<dots> \<le> length s" by (rule length_dropWhile_le)
  finally show ?thesis .
qed

lemma find_char_ge: "- 1 \<le> find_char c s"
  by (induction s) (auto simp: Let_def)

lemma tag_loop_shrinks:
  assumes "startswith s c" and "find_char d s \<noteq> - 1"
  shows "length (strip (drop (nat (find_char d s + 1)) s)) < length s"
proof -
  from assms(1) have ne: "s \<noteq> []" by (auto simp: startswith_def)
  from assms(2) find_char_ge [of d s] have "0 < nat (find_char d s + 1)" by simp
  with ne have "length (drop (nat (find_char d s + 1)) s) < length s" by simp
  with length_strip_le [of "drop (nat (find_char d s + 1)) s"] show ?thesis by simp
qed

text \<open>
  The \<open>while\<close> loop of \<open>parse_lrc\<close> over the leading tags of one line:
  \<open>time_tags\<close> collects the times that are greater than 0; the result is the list
  of tags and the text left when the loop ends.
\<close>

function tag_loop :: "string \<Rightarrow> int list \<Rightarrow> int list \<times> string" where
  "tag_loop text time_tags =
     (if startswith text CHR ''[''
      then
        let time_end = find_char CHR '']'' text in
        if time_end = - 1 then (time_tags, text)
        else
          let time_str = take (nat (time_end + 1)) text;
              time_ms = parse_lrc_time time_str
          in tag_loop (strip (drop (nat (time_end + 1)) text))
               (if 0 < time_ms then time_tags @ [time_ms] else time_tags)
      else (time_tags, text))"
  by pat_completeness auto
termination
proof (relation "measure (\<lambda>(s, tags). length s)")
  show "wf (measure (\<lambda>(s, tags). length s))" by simp
next
  fix s :: string and tags :: "int list" and x :: int and y z
  assume "startswith s CHR ''[''" and "x = find_char CHR '']'' s" and "x \<noteq> - 1"
  then have "length (strip (drop (nat (x + 1)) s)) < length s"
    using tag_loop_shrinks [of s "CHR ''[''" "CHR '']''"] by simp
  then show "((strip (drop (nat (x + 1)) s), if 0 < z then tags @ [z] else tags), s, tags)
       \<in> measure (\<lambda>(s, tags). length s)"
    by simp
qed

text \<open>
  One line of the input: what the body of the \<open>for\<close> loop appends to
  \<open>lyrics_lines\<close>.
\<close>

definition parse_line :: "string \<Rightarrow> (int \<times> string) list" where
  "parse_line raw =
     (let line = strip raw in
      if line = [] \<or> \<not> startswith line CHR ''['' then []
      else
        let (time_tags, text) = tag_loop line [] in
        concat (map (\<lambda>time_ms. if text \<noteq> [] then [(time_ms, text)] else []) time_tags))"

text \<open>The lines in the order the loop appends them, before the sort.\<close>

definition parsed_lines :: "string \<Rightarrow> (int \<times> string) list" where
  "parsed_lines lrc_text =
     (if lrc_text = [] then [] else concat (map parse_line (split_on (CHR 0x0A) lrc_text)))"

text \<open>
  \<open>parse_lrc\<close>: the value of \<open>lyrics_lines\<close> when the method returns.
  \<open>list.sort\<close> with a key is stable; it is modelled by \<open>sort_key\<close>.
\<close>

definition parse_lrc :: "string \<Rightarrow> (int \<times> string) list" where
  "parse_lrc lrc_text = sort_key fst (parsed_lines lrc_text)"

text \<open>
  The state of the tile: the parsed lines, the index of the highlighted line, and
  whether the \<open>player\<close> attribute has been set.
\<close>

record lyrics_tile =
  lyrics_lines :: "(int \<times> string) list"
  current_line :: int
  has_player :: bool

definition init_lyrics_tile :: lyrics_tile where
  "init_lyrics_tile = \<lparr>lyrics_lines = [], current_line = 0, has_player = False\<rparr>"

definition update_lyrics :: "lyrics_tile \<Rightarrow> string \<Rightarrow> lyrics_tile" where
  "update_lyrics t text = t\<lparr>current_line := - 1, lyrics_lines := parse_lrc text\<rparr>"

text \<open>
  The \<open>for\<close> loop of \<open>update_position\<close>, at index \<open>i\<close> with \<open>current_line\<close> as
  found so far: it stops at the first line whose time is greater than the position.
\<close>

fun scan_lines :: "(int \<times> string) list \<Rightarrow> int \<Rightarrow> nat \<Rightarrow> int \<Rightarrow> int" where
  "scan_lines [] position i current = current"
| "scan_lines ((time, text) # rest) position i current =
     (if position < time then current else scan_lines rest position (Suc i) (int i))"

definition update_position :: "lyrics_tile \<Rightarrow> int \<Rightarrow> lyrics_tile" where
  "update_position t position =
     (if lyrics_lines t = [] then t
      else
        let current = scan_lines (lyrics_lines t) position 0 (- 1) in
        if current \<noteq> current_line t then t\<lparr>current_line := current\<rparr> else t)"

text \<open>
  \<open>on_lyrics_click\<close> for a click inside label \<open>i\<close> (an index of \<open>enumerate\<close>, so
  never negative): the position sent to the player, if any. The method raises nothing.
\<close>

definition seek_line :: "lyrics_tile \<Rightarrow> nat \<Rightarrow> py_error + int option" where
  "seek_line t i =
     (if i < length (lyrics_lines t)
      then (if has_player t then Inr (Some (fst (lyrics_lines t ! i))) else Inr None)
      else Inr None)"

text \<open>
  The loop of \<open>on_lyrics_click\<close> over the labels: \<open>hits\<close> tells for each label
  from index \<open>i\<close> on whether its rectangle contains the click; the first label hit
  decides.
\<close>

fun on_lyrics_click :: "lyrics_tile \<Rightarrow> bool list \<Rightarrow> nat \<Rightarrow> py_error + int option" where
  "on_lyrics_click t [] i = Inr None"
| "on_lyrics_click t (hit # hits) i =
     (if hit then seek_line t i else on_lyrics_click t hits (Suc i))"

text \<open>
  A lyric track: the lines are in ascending order of time, and the cursor of a track
  without lines is \<open>-1\<close>. \<open>update_lyrics\<close> creates such a state.
\<close>

definition is_track :: "lyrics_tile \<Rightarrow> bool" where
  "is_track t = (sorted (map fst (lyrics_lines t)) \<and> (lyrics_lines t = [] \<longrightarrow> current_line t = - 1))"

text \<open>The track of the example: lines at 0, 1000 and 5000 ms.\<close>

definition abc_track :: lyrics_tile where
  "abc_track = \<lparr>lyrics_lines = [(0, ''a''), (1000, ''b''), (5000, ''c'')], current_line = - 1,
     has_player = True\<rparr>"

text \<open>Three lines of lyrics; the time 2000 ms occurs on each.\<close>

definition three_lines :: string where
  "three_lines = ''[00:02.00]b'' @ [CHR 0x0A] @ ''[00:01.00][00:02.00]Hello'' @ [CHR 0x0A] @ ''[00:02.00]c''"

text \<open>
  Time tags written from their fields: \<open>time_tag mm ss\<close> is \<open>[mm:ss]\<close>, and
  \<open>time_tag mm (ss @ ''.'' @ xx)\<close> is \<open>[mm:ss.xx]\<close>. A field is a non-empty string
  of decimal digits.
\<close>

definition digits :: "string \<Rightarrow> bool" where
  "digits s = (s \<noteq> [] \<and> list_all is_digit s)"

definition time_tag :: "string \<Rightarrow> string \<Rightarrow> string" where
  "time_tag minutes seconds = ''['' @ minutes @ '':'' @ seconds @ '']''"

text \<open>
  The time of \<open>[mm:ss.xx]\<close> as the specification words it, in exact arithmetic:
  minutes times 60 plus seconds, multiplied by 1000 and truncated.
\<close>

definition exact_ms :: "string \<Rightarrow> string \<Rightarrow> string \<Rightarrow> int" where
  "exact_ms mm ss xx =
     \<lfloor>(rat_of_nat (dec_of 0 mm) * 60
        + (rat_of_nat (dec_of 0 ss) + rat_of_nat (dec_of 0 xx) / 10 ^ length xx)) * 1000\<rfloor>"

declare tag_loop.simps [simp del]

section \<open>Carousel: theorems\<close>

lemma update_visible_tiles_pos:
  assumes "tiles s \<noteq> []"
  shows "update_visible_tiles s =
     Inr (s\<lparr>layout :=
       [(tiles s ! nat (current_index s mod int (length (tiles s))), 0),
        (tiles s ! nat ((current_index s + 1) mod int (length (tiles s))), 1),
        (tiles s ! nat ((current_index s + 2) mod int (length (tiles s))), 2)]\<rparr>)"
proof -
  have lt: "\<And>k. k mod int (length (tiles s)) < int (length (tiles s))"
    using assms by simp
  have three: "(3::nat) = Suc (Suc (Suc 0))" by simp
  show ?thesis
    using assms lt unfolding update_visible_tiles_def three
    by (simp add: Let_def)
qed

lemma scroll_left_many:
  assumes "3 < length (tiles s)"
  shows "\<exists>s'. scroll_left s = Inr s' \<and> tiles s' = tiles s \<and>
           current_index s' = (current_index s - 1) mod int (length (tiles s))"
proof -
  from assms have "tiles s \<noteq> []" by auto
  with assms show ?thesis by (simp add: scroll_left_def update_visible_tiles_pos)
qed

lemma scroll_right_many:
  assumes "3 < length (tiles s)"
  shows "\<exists>s'. scroll_right s = Inr s' \<and> tiles s' = tiles s \<and>
           current_index s' = (current_index s + 1) mod int (length (tiles s))"
proof -
  from assms have "tiles s \<noteq> []" by auto
  with assms show ?thesis by (simp add: scroll_right_def update_visible_tiles_pos)
qed

text \<open>
  Claim C6. With at most three tiles \<open>scroll_left\<close> and \<open>scroll_right\<close> return the
  state as it is. With more than three they succeed, keep the tile sequence, and set
  \<open>current_index\<close> to \<open>(current_index - 1) mod len\<close> and \<open>(current_index + 1) mod len\<close>.
\<close>

theorem rotate_start_index:
  "(length (tiles s) \<le> 3 \<longrightarrow> scroll_left s = Inr s \<and> scroll_right s = Inr s) \<and>
   (3 < length (tiles s) \<longrightarrow>
      (\<exists>s'. scroll_left s = Inr s' \<and> tiles s' = tiles s \<and>
            current_index s' = (current_index s - 1) mod int (length (tiles s))) \<and>
      (\<exists>s'. scroll_right s = Inr s' \<and> tiles s' = tiles s \<and>
            current_index s' = (current_index s + 1) mod int (length (tiles s))))"
proof (intro conjI impI)
  assume "length (tiles s) \<le> 3"
  then show "scroll_left s = Inr s" by (simp add: scroll_left_def)
next
  assume "length (tiles s) \<le> 3"
  then show "scroll_right s = Inr s" by (simp add: scroll_right_def)
next
  assume "3 < length (tiles s)"
  then show "\<exists>s'. scroll_left s = Inr s' \<and> tiles s' = tiles s \<and>
            current_index s' = (current_index s - 1) mod int (length (tiles s))"
    by (rule scroll_left_many)
next
  assume "3 < length (tiles s)"
  then show "\<exists>s'. scroll_right s = Inr s' \<and> tiles s' = tiles s \<and>
            current_index s' = (current_index s + 1) mod int (length (tiles s))"
    by (rule scroll_right_many)
qed

theorem rotate_start_index_witness:
  "scroll_left (carousel_of [item0, item1]) = Inr (carousel_of [item0, item1]) \<and>
   scroll_right (carousel_of [item0, item1]) = Inr (carousel_of [item0, item1]) \<and>
   (\<exists>s'. scroll_left (carousel_of [item0, item1, item2, item3, item4]) = Inr s' \<and>
         tiles s' = [item0, item1, item2, item3, item4] \<and> current_index s' = 4) \<and>
   (\<exists>s'. scroll_right (carousel_of [item0, item1, item2, item3, item4]) = Inr s' \<and>
         tiles s' = [item0, item1, item2, item3, item4] \<and> current_index s' = 1)"
  using rotate_start_index [of "carousel_of [item0, item1]"]
    rotate_start_index [of "carousel_of [item0, item1, item2, item3, item4]"]
  by (simp add: carousel_of_def)

text \<open>
  Claim C7, evaluated where it fails. A carousel that has received one tile, and then
  a second one, hands the first tile to the layout again instead of showing each tile
  once: three placements for one tile, and the first tile again in the third column
  for two.
\<close>

theorem visible_window_few_tiles:
  "window_after [\<lambda>s. add_tile s item0] init_scroll_area = Inr [item0, item0, item0] \<and>
   window_after [\<lambda>s. add_tile s item0, \<lambda>s. add_tile s item1] init_scroll_area
     = Inr [item0, item1, item0]"
  by (simp add: window_after_def add_tile_def init_scroll_area_def update_visible_tiles_pos
      visible_window_def)

text \<open>
  The part of claim C7 that the code meets: with more than three tiles the window is
  the three tiles at \<open>(current_index + i) mod len\<close> for \<open>i = 0, 1, 2\<close>, in that order.
\<close>

lemma visible_window_many:
  assumes "3 < length (tiles s)"
  shows "window_after [update_visible_tiles] s =
     Inr (map (\<lambda>i. tiles s ! nat ((current_index s + int i) mod int (length (tiles s)))) [0, 1, 2])"
proof -
  from assms have "tiles s \<noteq> []" by auto
  then show ?thesis by (simp add: window_after_def update_visible_tiles_pos visible_window_def)
qed

text \<open>
  Claim C8 as stated fails: a carousel of three tiles is not empty, and
  \<open>play_current\<close> returns before picking a centre tile.
\<close>

theorem center_item_three_tiles_counterexample:
  "tiles (carousel_of [item0, item1, item2]) \<noteq> [] \<and>
   center_tile (carousel_of [item0, item1, item2]) = None \<and>
   play_current (carousel_of [item0, item1, item2]) = None"
  by (simp add: carousel_of_def center_tile_def play_current_def)

text \<open>
  Claim C8, amended. With more than three tiles the centre tile is the one at offset 1
  of the visible window, that is \<open>tiles[(current_index + 1) mod len]\<close>; with zero to
  three tiles there is no centre tile and nothing is emitted.
\<close>

theorem center_item_offset_one:
  "(length (tiles s) \<le> 3 \<longrightarrow> center_tile s = None \<and> play_current s = None) \<and>
   (3 < length (tiles s) \<longrightarrow>
      center_tile s = Some (tiles s ! nat ((current_index s + 1) mod int (length (tiles s)))) \<and>
      (\<exists>w. window_after [update_visible_tiles] s = Inr w \<and> length w = 3 \<and>
           center_tile s = Some (w ! 1)))"
proof (intro conjI impI)
  assume "length (tiles s) \<le> 3"
  then show "center_tile s = None" by (simp add: center_tile_def)
  then show "play_current s = None" by (simp add: play_current_def)
next
  assume many: "3 < length (tiles s)"
  then show c: "center_tile s = Some (tiles s ! nat ((current_index s + 1) mod int (length (tiles s))))"
    by (simp add: center_tile_def)
  show "\<exists>w. window_after [update_visible_tiles] s = Inr w \<and> length w = 3 \<and>
           center_tile s = Some (w ! 1)"
    using c visible_window_many [OF many] by simp
qed

theorem center_item_offset_one_witness:
  "center_tile (carousel_of [item0, item1, item2]) = None \<and>
   play_current (carousel_of [item0, item1, item2]) = None \<and>
   center_tile (carousel_of [item0, item1, item2, item3, item4]) = Some item1 \<and>
   (\<exists>w. window_after [update_visible_tiles] (carousel_of [item0, item1, item2, item3, item4]) = Inr w \<and>
        length w = 3 \<and> center_tile (carousel_of [item0, item1, item2, item3, item4]) = Some (w ! 1))"
  using center_item_offset_one [of "carousel_of [item0, item1, item2]"]
    center_item_offset_one [of "carousel_of [item0, item1, item2, item3, item4]"]
  by (auto simp add: carousel_of_def)

text \<open>
  Claim C9 as stated fails in its last step. From five tiles at index 0, one
  \<open>scroll_right\<close> and two \<open>scroll_left\<close> end at index 4, and the window is then
  the fifth, first and second tile, not the first three.
\<close>

theorem five_items_two_lefts_counterexample:
  "window_after [update_visible_tiles, scroll_right, scroll_left, scroll_left]
     (carousel_of [item0, item1, item2, item3, item4]) = Inr [item4, item0, item1] \<and>
   [item4, item0, item1] \<noteq> [item0, item1, item2]"
  by (simp add: window_after_def carousel_of_def scroll_left_def scroll_right_def
      update_visible_tiles_pos visible_window_def item0_def item4_def)

text \<open>
  Claim C9, amended. For any five tiles at index 0 the window is the first three
  tiles; after one \<open>scroll_right\<close> it is the second to fourth; one further
  \<open>scroll_left\<close> brings the first three back; a second further \<open>scroll_left\<close>
  wraps around to the fifth, first and second tile.
\<close>

theorem five_items_rotation:
  "window_after [update_visible_tiles] (carousel_of [a, b, c, d, e]) = Inr [a, b, c] \<and>
   window_after [update_visible_tiles, scroll_right] (carousel_of [a, b, c, d, e]) = Inr [b, c, d] \<and>
   window_after [update_visible_tiles, scroll_right, scroll_left] (carousel_of [a, b, c, d, e])
     = Inr [a, b, c] \<and>
   window_after [update_visible_tiles, scroll_right, scroll_left, scroll_left]
     (carousel_of [a, b, c, d, e]) = Inr [e, a, b]"
  by (simp add: window_after_def carousel_of_def scroll_left_def scroll_right_def
      update_visible_tiles_pos visible_window_def)

section \<open>Evaluation on literals\<close>

lemma bitlen_One: "bitlen 1 = 1"
  by (subst compute_bitlen) simp

lemma bitlen_Bit0: "bitlen (numeral (Num.Bit0 n)) = bitlen (numeral n) + 1"
  by (subst compute_bitlen) simp

lemma bitlen_Bit1: "bitlen (numeral (Num.Bit1 n)) = bitlen (numeral n) + 1"
  by (subst compute_bitlen) simp

lemma floor_rat_div: "\<lfloor>numeral a / numeral b :: rat\<rfloor> = numeral a div numeral b"
  by (metis floor_divide_of_int_eq of_int_numeral)

lemma floor_rat_neg_div: "\<lfloor>- (numeral a / numeral b) :: rat\<rfloor> = - numeral a div numeral b"
  by (metis floor_divide_of_int_eq of_int_numeral of_int_minus minus_divide_left)

lemma floor_rat_one_div: "\<lfloor>1 / numeral b :: rat\<rfloor> = 1 div numeral b"
  by (metis floor_divide_of_int_eq of_int_numeral of_int_1)

lemma floor_rat_neg_one_div: "\<lfloor>- (1 / numeral b) :: rat\<rfloor> = - 1 div numeral b"
  by (metis floor_divide_of_int_eq of_int_numeral of_int_1 of_int_minus minus_divide_left)

lemmas rat_eval = bitlen_One bitlen_Bit0 bitlen_Bit1 floor_rat_div floor_rat_neg_div
  floor_rat_one_div floor_rat_neg_one_div ceiling_def

lemmas float_eval = float_of_string_def is_float_space_def parse_decimal_def startswith_def
  is_digit_def parse_exponent_def digit_val_def round64_def ilog2_def rat_eval round_to_even_def
  pow2_def signed_def parse_inf_or_nan_def lower_def

lemmas time_eval = parse_lrc_time_def parse_lrc_time_try_def

lemmas lrc_eval = parse_lrc_def parsed_lines_def parse_line_def strip_def is_space_def
  tag_loop.simps

section \<open>Rounding: bounds\<close>

lemma pow2_powi: "pow2 e = 2 powi e"
  by (simp add: pow2_def power_int_def power_divide inverse_eq_divide)

lemma pow2_pos: "0 < pow2 e"
  by (simp add: pow2_powi zero_less_power_int)

lemma pow2_mono: "a \<le> b \<Longrightarrow> pow2 a \<le> pow2 b"
  by (simp add: pow2_powi power_int_increasing)

lemma pow2_nat: "pow2 (int k) = 2 ^ k"
  by (simp add: pow2_def)

lemma pow2_add: "pow2 (a + b) = pow2 a * pow2 b"
  by (simp add: pow2_powi power_int_add)

lemma pow2_neg53: "pow2 (- 53) = 1 / 2 ^ 53"
  by (simp add: pow2_def)

lemma pow2_53: "pow2 53 = 2 ^ 53"
  by (simp add: pow2_def)

lemma ilog2_le:
  assumes "0 < x"
  shows "pow2 (ilog2 x) \<le> x"
proof (cases "1 \<le> x")
  case True
  then have pos: "0 < \<lfloor>x\<rfloor>" by simp
  from bitlen_bounds [OF pos] have b: "2 ^ nat (bitlen \<lfloor>x\<rfloor> - 1) \<le> \<lfloor>x\<rfloor>" by simp
  from pos have "1 \<le> bitlen \<lfloor>x\<rfloor>" by (simp add: bitlen_alt_def)
  then have "pow2 (ilog2 x) = 2 ^ nat (bitlen \<lfloor>x\<rfloor> - 1)"
    using True by (simp add: ilog2_def pow2_def)
  also have "\<dots> = rat_of_int (2 ^ nat (bitlen \<lfloor>x\<rfloor> - 1))" by simp
  also have "\<dots> \<le> rat_of_int \<lfloor>x\<rfloor>" using b by (simp only: of_int_le_iff)
  also have "\<dots> \<le> x" by simp
  finally show ?thesis .
next
  case False
  with assms have "1 < 1 / x" by simp
  then have "1 < \<lceil>1 / x\<rceil>" by (simp add: less_ceiling_iff)
  then have pos: "0 < \<lceil>1 / x\<rceil> - 1" by simp
  let ?b = "bitlen (\<lceil>1 / x\<rceil> - 1)"
  from bitlen_bounds [OF pos] have "\<lceil>1 / x\<rceil> - 1 < 2 ^ nat ?b" by simp
  then have "\<lceil>1 / x\<rceil> \<le> 2 ^ nat ?b" by simp
  then have "rat_of_int \<lceil>1 / x\<rceil> \<le> rat_of_int (2 ^ nat ?b)" by (simp only: of_int_le_iff)
  moreover have "1 / x \<le> rat_of_int \<lceil>1 / x\<rceil>" by (rule le_of_int_ceiling)
  moreover have "rat_of_int (2 ^ nat ?b) = 2 ^ nat ?b" by simp
  ultimately have "1 / x \<le> 2 ^ nat ?b" by linarith
  with assms have "1 / 2 ^ nat ?b \<le> x"
    by (simp add: field_simps)
  moreover have "0 \<le> ?b" by (rule bitlen_nonneg)
  moreover from pos have "?b \<noteq> 0" by (simp add: bitlen_eq_zero_iff)
  ultimately show ?thesis using False by (simp add: ilog2_def pow2_def)
qed

lemma ilog2_less:
  assumes "0 < x" and "x < pow2 k"
  shows "ilog2 x < k"
proof (rule ccontr)
  assume "\<not> ilog2 x < k"
  then have "pow2 k \<le> pow2 (ilog2 x)" by (simp add: pow2_mono)
  with ilog2_le [OF assms(1)] assms(2) show False by simp
qed

lemma round_to_even_err: "\<bar>rat_of_int (round_to_even y) - y\<bar> \<le> 1 / 2"
proof -
  define d where "d = y - rat_of_int \<lfloor>y\<rfloor>"
  have d: "0 \<le> d" "d < 1" unfolding d_def by linarith+
  consider "d < 1 / 2" | "1 / 2 < d" | "d = 1 / 2" by linarith
  then show ?thesis
  proof cases
    case 1
    then have "round_to_even y = \<lfloor>y\<rfloor>"
      by (simp add: round_to_even_def d_def)
    with 1 d show ?thesis unfolding d_def by simp
  next
    case 2
    then have "round_to_even y = \<lfloor>y\<rfloor> + 1"
      by (simp add: round_to_even_def d_def)
    with 2 d show ?thesis unfolding d_def by simp
  next
    case 3
    then have "round_to_even y = \<lfloor>y\<rfloor> \<or> round_to_even y = \<lfloor>y\<rfloor> + 1"
      by (simp add: round_to_even_def d_def Let_def)
    with 3 show ?thesis unfolding d_def by auto
  qed
qed

lemma round_to_even_of_int: "round_to_even (rat_of_int n) = n"
  by (simp add: round_to_even_def)

lemma round64_finite:
  assumes "x \<noteq> 0" and "e = max (ilog2 \<bar>x\<bar> - 52) (- 1074)"
    and "r = rat_of_int (round_to_even (x / pow2 e)) * pow2 e" and "\<bar>r\<bar> < 2 ^ 1024"
  shows "round64 x = Finite r"
proof -
  from assms(4) have "\<not> 2 ^ 1024 \<le> r" and "\<not> r \<le> - (2 ^ 1024)" by linarith+
  then show ?thesis
    using assms(1) by (simp add: round64_def Let_def assms(2) [symmetric] assms(3) [symmetric])
qed

lemma round64_error:
  assumes "\<bar>x\<bar> < 2 ^ k" and "k \<le> 1023"
  shows "\<exists>r. round64 x = Finite r \<and> \<bar>r - x\<bar> \<le> 2 ^ k / 2 ^ 54"
proof (cases "x = 0")
  case True
  then show ?thesis by (simp add: round64_def)
next
  case False
  define e where "e = max (ilog2 \<bar>x\<bar> - 52) (- 1074)"
  define q where "q = round_to_even (x / pow2 e)"
  define r where "r = rat_of_int q * pow2 e"
  from False assms(1) have "ilog2 \<bar>x\<bar> < int k"
    by (intro ilog2_less) (simp_all add: pow2_nat)
  with assms(2) have "e \<le> int k - 53" by (simp add: e_def)
  then have "pow2 e \<le> pow2 (int k + (- 53))" by (intro pow2_mono) simp
  also have "\<dots> = pow2 (int k) * pow2 (- 53)" by (rule pow2_add)
  also have "\<dots> = 2 ^ k / 2 ^ 53" by (simp add: pow2_nat pow2_neg53)
  finally have pe: "pow2 e \<le> 2 ^ k / 2 ^ 53" .
  have "r - x = (rat_of_int q - x / pow2 e) * pow2 e"
    using pow2_pos [of e] by (simp add: r_def left_diff_distrib)
  then have "\<bar>r - x\<bar> = \<bar>rat_of_int q - x / pow2 e\<bar> * pow2 e"
    using pow2_pos [of e] by (simp add: abs_mult)
  also have "\<dots> \<le> 1 / 2 * pow2 e"
    using round_to_even_err [of "x / pow2 e"] pow2_pos [of e]
    by (intro mult_right_mono) (simp_all add: q_def)
  also have "\<dots> \<le> 1 / 2 * (2 ^ k / 2 ^ 53)"
    using pe by simp
  finally have err: "\<bar>r - x\<bar> \<le> 2 ^ k / 2 ^ 54" by simp
  have "(2::rat) ^ k / 2 ^ 54 < 2 ^ k" by simp
  with err assms(1) have "\<bar>r\<bar> < 2 ^ k + 2 ^ k" by linarith
  also have "\<dots> = (2::rat) ^ Suc k" by simp
  also have "\<dots> \<le> 2 ^ 1024"
    using assms(2) by (intro power_increasing) simp_all
  finally have "\<bar>r\<bar> < 2 ^ 1024" .
  with False have "round64 x = Finite r"
    by (intro round64_finite [where e = e]) (simp_all add: e_def r_def q_def)
  with err show ?thesis by blast
qed

lemma round64_exact_int:
  assumes "\<bar>n\<bar> < 2 ^ 53"
  shows "round64 (rat_of_int n) = Finite (rat_of_int n)"
proof (cases "n = 0")
  case True
  then show ?thesis by (simp add: round64_def)
next
  case False
  define x where "x = rat_of_int n"
  define e where "e = max (ilog2 \<bar>x\<bar> - 52) (- 1074)"
  from assms have "\<bar>x\<bar> < 2 ^ 53"
    unfolding x_def by (metis of_int_abs of_int_less_iff of_int_numeral of_int_power)
  with False have "ilog2 \<bar>x\<bar> < 53"
    by (intro ilog2_less) (simp_all add: pow2_53 x_def)
  then have e0: "e \<le> 0" by (simp add: e_def)
  then have pe: "pow2 e = 1 / 2 ^ nat (- e)"
    by (cases "e = 0") (simp_all add: pow2_def)
  have "x / pow2 e = rat_of_int (n * 2 ^ nat (- e))"
    by (simp add: pe x_def)
  then have q: "round_to_even (x / pow2 e) = n * 2 ^ nat (- e)"
    by (simp only: round_to_even_of_int)
  have r: "rat_of_int (round_to_even (x / pow2 e)) * pow2 e = x"
    unfolding q by (simp add: pe x_def)
  from \<open>\<bar>x\<bar> < 2 ^ 53\<close> have "\<bar>x\<bar> < 2 ^ 1024"
    by (rule less_trans) simp
  moreover from False have "x \<noteq> 0" by (simp add: x_def)
  ultimately have "round64 x = Finite x"
    using r by (intro round64_finite [where e = e]) (simp_all add: e_def)
  then show ?thesis by (simp add: x_def)
qed

section \<open>Parsing strings of digits\<close>

lemma is_digit_not_special:
  assumes "is_digit c"
  shows "\<not> is_float_space c" and "c \<noteq> CHR ''_''" and "c \<noteq> CHR ''-''" and "c \<noteq> CHR ''+''"
    and "c \<noteq> CHR ''.''" and "c \<noteq> CHR '':''" and "digit_val c \<le> 9"
  using assms by (auto simp: is_digit_def is_float_space_def digit_val_def Let_def)

lemma dec_of_acc: "dec_of acc ds = acc * 10 ^ length ds + dec_of 0 ds"
proof (induction ds arbitrary: acc)
  case Nil
  show ?case by simp
next
  case (Cons c cs)
  have "dec_of acc (c # cs) = dec_of (10 * acc + digit_val c) cs" by simp
  also have "\<dots> = (10 * acc + digit_val c) * 10 ^ length cs + dec_of 0 cs" by (rule Cons.IH)
  also have "dec_of 0 (c # cs) = digit_val c * 10 ^ length cs + dec_of 0 cs"
    using Cons.IH [of "digit_val c"] by simp
  then have "(10 * acc + digit_val c) * 10 ^ length cs + dec_of 0 cs
      = acc * 10 ^ length (c # cs) + dec_of 0 (c # cs)"
    by (simp add: algebra_simps)
  finally show ?case .
qed

lemma dec_of_append: "dec_of 0 (a @ b) = dec_of 0 a * 10 ^ length b + dec_of 0 b"
proof -
  have "dec_of acc (a @ b) = dec_of (dec_of acc a) b" for acc
    by (induction a arbitrary: acc) simp_all
  then show ?thesis using dec_of_acc [of "dec_of 0 a" b] by simp
qed

lemma dec_of_less:
  assumes "list_all is_digit ds"
  shows "dec_of 0 ds < 10 ^ length ds"
  using assms
proof (induction ds rule: rev_induct)
  case Nil
  show ?case by simp
next
  case (snoc c cs)
  then have "dec_of 0 cs < 10 ^ length cs" and "digit_val c \<le> 9"
    by (simp_all add: is_digit_not_special)
  then have "dec_of 0 cs * 10 + digit_val c < 10 ^ length cs * 10" by linarith
  then show ?case by (simp add: dec_of_append)
qed

lemma drop_underscores_none:
  assumes "CHR ''_'' \<notin> set s" and "prev \<noteq> CHR ''_''"
  shows "drop_underscores prev s = Some s"
  using assms by (induction s arbitrary: prev) auto

lemma float_strip_id:
  assumes "s \<noteq> []" and "\<not> is_float_space (hd s)" and "\<not> is_float_space (last s)"
  shows "rev (dropWhile is_float_space (rev (dropWhile is_float_space s))) = s"
proof -
  from assms(1,2) have a: "dropWhile is_float_space s = s" by (cases s) simp_all
  from assms(1,3) have "dropWhile is_float_space (rev s) = rev s"
    by (cases "rev s") (simp_all add: hd_rev [symmetric])
  with a show ?thesis by simp
qed

text \<open>
  A string \<open>ip\<close> of digits, and a string \<open>ip.fp\<close>, read as the decimal number they
  write, rounded.
\<close>

lemma parse_decimal_digits:
  assumes "digits ip" and "list_all is_digit fp" and "length ip + length fp \<le> 1000"
  shows "parse_decimal ip = Some (round64 (rat_of_nat (dec_of 0 ip)))"
    and "parse_decimal (ip @ CHR ''.'' # fp)
           = Some (round64 (rat_of_nat (dec_of 0 (ip @ fp)) / 10 ^ length fp))"
proof -
  from assms(1) obtain c cs where ip: "ip = c # cs" and c: "is_digit c" and all: "list_all is_digit ip"
    by (cases ip) (auto simp: digits_def)
  have ne: "ip \<noteq> []" using ip by simp
  have nsign: "startswith (ip @ CHR ''.'' # fp) CHR ''-'' = False"
    "startswith (ip @ CHR ''.'' # fp) CHR ''+'' = False"
    "startswith ip CHR ''-'' = False" "startswith ip CHR ''+'' = False"
    using ip is_digit_not_special [OF c] by (simp_all add: startswith_def)
  have all': "\<forall>x \<in> set ip. is_digit x" using all by (simp add: list_all_iff)
  have allf: "\<forall>x \<in> set fp. is_digit x" using assms(2) by (simp add: list_all_iff)
  have ndot: "\<not> is_digit CHR ''.''" by (simp add: is_digit_def)
  have tw: "takeWhile is_digit (ip @ CHR ''.'' # fp) = ip"
    using all' ndot by (simp add: takeWhile_tail)
  have dw: "dropWhile is_digit (ip @ CHR ''.'' # fp) = CHR ''.'' # fp"
    using all' ndot by (simp add: dropWhile_append3)
  have twf: "takeWhile is_digit fp = fp" "dropWhile is_digit fp = []"
    using allf by simp_all
  have tw0: "takeWhile is_digit ip = ip" "dropWhile is_digit ip = []"
    using all' by simp_all
  have len: "length (dropWhile (\<lambda>c. c = CHR ''0'') (ip @ fp)) \<le> length ip + length fp"
    using length_dropWhile_le [of "\<lambda>c. c = CHR ''0''" "ip @ fp"] by simp
  have big: "(1000000000 < int (length (dropWhile (\<lambda>c. c = CHR ''0'') (ip @ fp)))) = False"
    "(1000000000 < int (length fp)) = False"
    using len assms(3) by simp_all
  have len0: "length (dropWhile (\<lambda>c. c = CHR ''0'') ip) \<le> length ip"
    by (rule length_dropWhile_le)
  have big0: "(1000000000 < int (length (dropWhile (\<lambda>c. c = CHR ''0'') ip))) = False"
    using len0 assms(3) by simp
  have dot: "startswith (CHR ''.'' # fp) CHR ''.'' = True" "startswith [] CHR ''.'' = False"
    by (simp_all add: startswith_def)
  have ex: "parse_exponent [] = Some 0" by (simp add: parse_exponent_def)
  have "parse_decimal ip = Some (signed False (round64 (rat_of_nat (dec_of 0 ip) * 10 ^ nat 0)))"
    unfolding parse_decimal_def Let_def
    by (simp only: nsign tw0 dot if_False if_True append_Nil2 list.size ex option.case big0
        simp_thms ne of_nat_0 diff_zero order_refl) simp?
  then show "parse_decimal ip = Some (round64 (rat_of_nat (dec_of 0 ip)))"
    by (simp add: signed_def)
  have "parse_decimal (ip @ CHR ''.'' # fp) =
      Some (signed False (round64 (if 0 \<le> 0 - int (length fp)
        then rat_of_nat (dec_of 0 (ip @ fp)) * 10 ^ nat (0 - int (length fp))
        else rat_of_nat (dec_of 0 (ip @ fp)) / 10 ^ nat (- (0 - int (length fp))))))"
    unfolding parse_decimal_def Let_def
    by (simp only: nsign tw dw twf dot if_False if_True list.sel ex option.case big simp_thms ne)
      simp?
  then show "parse_decimal (ip @ CHR ''.'' # fp)
           = Some (round64 (rat_of_nat (dec_of 0 (ip @ fp)) / 10 ^ length fp))"
    by (cases "fp = []") (simp_all add: signed_def)
qed

lemma float_of_string_digits:
  assumes "digits ip" and "digits fp" and "length ip + length fp \<le> 1000"
  shows "float_of_string ip = Inr (round64 (rat_of_nat (dec_of 0 ip)))"
    and "float_of_string (ip @ CHR ''.'' # fp)
           = Inr (round64 (rat_of_nat (dec_of 0 (ip @ fp)) / 10 ^ length fp))"
proof -
  from assms have ne: "ip \<noteq> []" "fp \<noteq> []"
    and all: "\<forall>x \<in> set ip. is_digit x" "\<forall>x \<in> set fp. is_digit x"
    by (simp_all add: digits_def list_all_iff)
  from ne all have hd: "is_digit (hd ip)" and lst: "is_digit (last ip)" "is_digit (last fp)"
    by simp_all
  have us: "CHR ''_'' \<notin> set ip" "CHR ''_'' \<notin> set fp"
    using all is_digit_not_special(2) by blast+
  have s1: "rev (dropWhile is_float_space (rev (dropWhile is_float_space ip))) = ip"
    using ne hd lst by (intro float_strip_id) (simp_all add: is_digit_not_special)
  have s2: "rev (dropWhile is_float_space (rev (dropWhile is_float_space (ip @ CHR ''.'' # fp))))
      = ip @ CHR ''.'' # fp"
    using ne hd lst by (intro float_strip_id) (simp_all add: is_digit_not_special)
  have u1: "drop_underscores (CHR ''x'') ip = Some ip"
    using us by (intro drop_underscores_none) simp_all
  have u2: "drop_underscores (CHR ''x'') (ip @ CHR ''.'' # fp) = Some (ip @ CHR ''.'' # fp)"
    using us by (intro drop_underscores_none) simp_all
  from assms have fpd: "list_all is_digit fp" by (simp add: digits_def)
  show "float_of_string ip = Inr (round64 (rat_of_nat (dec_of 0 ip)))"
    unfolding float_of_string_def Let_def s1 u1
    by (simp add: parse_decimal_digits(1) [OF assms(1) fpd assms(3)])
  show "float_of_string (ip @ CHR ''.'' # fp)
           = Inr (round64 (rat_of_nat (dec_of 0 (ip @ fp)) / 10 ^ length fp))"
    unfolding float_of_string_def Let_def s2 u2
    by (simp add: parse_decimal_digits(2) [OF assms(1) fpd assms(3)])
qed

lemma split_on_none: "c \<notin> set s \<Longrightarrow> split_on c s = [s]"
  by (induction s) auto

lemma split_on_once:
  assumes "c \<notin> set a" and "c \<notin> set b"
  shows "split_on c (a @ c # b) = [a, b]"
  using assms by (induction a) (auto simp: split_on_none)

lemma parse_lrc_time_try_tag:
  assumes "CHR '':'' \<notin> set minutes" and "CHR '':'' \<notin> set seconds"
  shows "parse_lrc_time_try (time_tag minutes seconds) =
     (case float_of_string minutes of
        Inl e \<Rightarrow> Inl e
      | Inr fm \<Rightarrow>
          (case float_of_string seconds of
             Inl e \<Rightarrow> Inl e
           | Inr fs \<Rightarrow> int_of_float (fmul (fadd (fmul fm (Finite 60)) fs) (Finite 1000))))"
proof -
  have "butlast (tl (time_tag minutes seconds)) = minutes @ CHR '':'' # seconds"
    by (simp add: time_tag_def butlast_append)
  then show ?thesis
    using split_on_once [OF assms] by (simp add: parse_lrc_time_try_def)
qed

section \<open>Time tags\<close>

lemma round64_nat:
  assumes "n < 2 ^ 53"
  shows "round64 (rat_of_nat n) = Finite (rat_of_nat n)"
proof -
  from assms have "int n < 2 ^ 53"
    by (metis of_nat_less_iff of_nat_numeral of_nat_power)
  then have "\<bar>int n\<bar> < 2 ^ 53" by simp
  from round64_exact_int [OF this] show ?thesis by simp
qed

lemma digits_bound:
  assumes "digits ds" and "length ds \<le> k"
  shows "dec_of 0 ds < 10 ^ k"
proof -
  from assms(1) have "dec_of 0 ds < 10 ^ length ds"
    by (intro dec_of_less) (simp add: digits_def)
  also have "(10::nat) ^ length ds \<le> 10 ^ k"
    using assms(2) by (intro power_increasing) simp_all
  finally show ?thesis .
qed

lemma digits_no_colon: "digits ds \<Longrightarrow> CHR '':'' \<notin> set ds"
  using is_digit_not_special(6) by (auto simp: digits_def list_all_iff)

lemma parse_lrc_time_try_floats:
  assumes "CHR '':'' \<notin> set minutes" and "CHR '':'' \<notin> set seconds"
    and "float_of_string minutes = Inr fm" and "float_of_string seconds = Inr fs"
  shows "parse_lrc_time_try (time_tag minutes seconds)
           = int_of_float (fmul (fadd (fmul fm (Finite 60)) fs) (Finite 1000))"
  by (simp add: parse_lrc_time_try_tag [OF assms(1,2)] assms(3,4))

lemma nat_le_rat: "n \<le> k \<Longrightarrow> rat_of_nat n \<le> rat_of_nat k"
  by simp

text \<open>A tag \<open>[mm:ss]\<close> with whole seconds: every step is exact.\<close>

lemma time_tag_whole:
  assumes "digits mm" and "digits ss" and "length mm \<le> 6" and "length ss \<le> 6"
  shows "parse_lrc_time_try (time_tag mm ss) = Inr ((int (dec_of 0 mm) * 60 + int (dec_of 0 ss)) * 1000)"
proof -
  define M where "M = dec_of 0 mm"
  define S where "S = dec_of 0 ss"
  have M: "M < 10 ^ 6" and S: "S < 10 ^ 6"
    unfolding M_def S_def by (rule digits_bound [OF assms(1,3)], rule digits_bound [OF assms(2,4)])
  have "round64 (rat_of_nat M) = Finite (rat_of_nat M)"
    using M by (intro round64_nat) simp
  with float_of_string_digits(1) [OF assms(1) assms(1)] assms(3)
  have fm: "float_of_string mm = Inr (Finite (rat_of_nat M))"
    by (simp add: M_def)
  have "round64 (rat_of_nat S) = Finite (rat_of_nat S)"
    using S by (intro round64_nat) simp
  with float_of_string_digits(1) [OF assms(2) assms(2)] assms(4)
  have fs: "float_of_string ss = Inr (Finite (rat_of_nat S))"
    by (simp add: S_def)
  have "round64 (rat_of_nat (M * 60)) = Finite (rat_of_nat (M * 60))"
    using M by (intro round64_nat) simp
  then have m60: "fmul (Finite (rat_of_nat M)) (Finite 60) = Finite (rat_of_nat (M * 60))"
    by simp
  have "round64 (rat_of_nat (M * 60 + S)) = Finite (rat_of_nat (M * 60 + S))"
    using M S by (intro round64_nat) simp
  then have tot: "fadd (Finite (rat_of_nat (M * 60))) (Finite (rat_of_nat S))
      = Finite (rat_of_nat (M * 60 + S))"
    by simp
  have "round64 (rat_of_nat ((M * 60 + S) * 1000)) = Finite (rat_of_nat ((M * 60 + S) * 1000))"
    using M S by (intro round64_nat) simp
  then have ms: "fmul (Finite (rat_of_nat (M * 60 + S))) (Finite 1000)
      = Finite (rat_of_nat ((M * 60 + S) * 1000))"
    by simp
  have fin: "int_of_float (Finite (rat_of_nat ((M * 60 + S) * 1000))) = Inr (int ((M * 60 + S) * 1000))"
    by (simp only: int_of_float.simps floor_of_nat) simp
  have "parse_lrc_time_try (time_tag mm ss)
      = int_of_float (fmul (fadd (fmul (Finite (rat_of_nat M)) (Finite 60)) (Finite (rat_of_nat S)))
          (Finite 1000))"
    by (rule parse_lrc_time_try_floats [OF digits_no_colon [OF assms(1)] digits_no_colon [OF assms(2)] fm fs])
  also have "\<dots> = Inr (int ((M * 60 + S) * 1000))"
    by (simp only: m60 tot ms fin)
  also have "int ((M * 60 + S) * 1000) = (int M * 60 + int S) * 1000" by simp
  finally show ?thesis unfolding M_def S_def .
qed

text \<open>
  A tag \<open>[mm:ss.xx]\<close>: three roundings, whose errors add up to less than half a
  millisecond, so the truncated result is the exact number of milliseconds or one less.
\<close>

lemma time_tag_fraction:
  assumes "digits mm" and "digits ss" and "digits xx"
    and "length mm \<le> 6" and "length ss \<le> 6" and "length xx \<le> 3"
  shows "parse_lrc_time_try (time_tag mm (ss @ CHR ''.'' # xx)) = Inr (exact_ms mm ss xx) \<or>
         parse_lrc_time_try (time_tag mm (ss @ CHR ''.'' # xx)) = Inr (exact_ms mm ss xx - 1)"
proof -
  define M where "M = dec_of 0 mm"
  define S where "S = dec_of 0 ss"
  define X where "X = dec_of 0 xx"
  define n where "n = length xx"
  define f where "f = rat_of_nat X / 10 ^ n"
  define s where "s = rat_of_nat S + f"
  have M: "M < 10 ^ 6" and S: "S < 10 ^ 6"
    unfolding M_def S_def by (rule digits_bound [OF assms(1,4)], rule digits_bound [OF assms(2,5)])
  have X: "X < 10 ^ n"
    unfolding X_def n_def by (rule digits_bound [OF assms(3) order_refl])
  have n3: "n \<le> 3" using assms(6) by (simp add: n_def)
  \<comment> \<open>the exact number of milliseconds is a natural number\<close>
  define T where "T = M * 60000 + S * 1000 + X * 10 ^ (3 - n)"
  have "(10::rat) ^ (n + (3 - n)) = 10 ^ n * 10 ^ (3 - n)"
    by (rule power_add)
  with n3 have p: "(1000::rat) = 10 ^ n * 10 ^ (3 - n)" by simp
  have frac: "f * 1000 = rat_of_nat X * 10 ^ (3 - n)"
    unfolding f_def by (subst p) simp
  have "(rat_of_nat M * 60 + s) * 1000 = rat_of_nat M * 60000 + rat_of_nat S * 1000 + f * 1000"
    unfolding s_def by (simp add: algebra_simps)
  also have "\<dots> = rat_of_nat T"
    unfolding frac T_def by simp
  finally have V: "(rat_of_nat M * 60 + s) * 1000 = rat_of_nat T" .
  have "exact_ms mm ss xx = \<lfloor>(rat_of_nat M * 60 + s) * 1000\<rfloor>"
    unfolding exact_ms_def M_def S_def X_def n_def s_def f_def ..
  then have exact: "exact_ms mm ss xx = int T"
    unfolding V by simp
  \<comment> \<open>bounds on the fields\<close>
  have f0: "0 \<le> f" by (simp add: f_def)
  have "rat_of_nat X < rat_of_nat (10 ^ n)" using X by (simp only: of_nat_less_iff)
  then have f1: "f < 1" by (simp add: f_def)
  from S have "S \<le> 999999" by simp
  from nat_le_rat [OF this] have Sr: "rat_of_nat S \<le> 999999" by simp
  from M have "M \<le> 999999" by simp
  from nat_le_rat [OF this] have Mr: "rat_of_nat M \<le> 999999" by simp
  have M0: "0 \<le> rat_of_nat M" and S0: "0 \<le> rat_of_nat S" by simp_all
  have s0: "0 \<le> s" and s1: "s < 1000000"
    unfolding s_def using f0 f1 Sr S0 by linarith+
  \<comment> \<open>the three roundings\<close>
  have "\<bar>s\<bar> < 1048576" using s0 s1 by linarith
  then have "\<bar>s\<bar> < 2 ^ 20" by simp
  from round64_error [OF this] obtain r1 where
    r1: "round64 s = Finite r1" and "\<bar>r1 - s\<bar> \<le> 2 ^ 20 / 2 ^ 54"
    by auto
  then have e1: "\<bar>r1 - s\<bar> \<le> 1 / 1000000" by simp
  have "\<bar>rat_of_nat M * 60 + r1\<bar> < 67108864"
    using Mr M0 s0 s1 e1 by linarith
  then have "\<bar>rat_of_nat M * 60 + r1\<bar> < 2 ^ 26" by simp
  from round64_error [OF this] obtain r2 where
    r2: "round64 (rat_of_nat M * 60 + r1) = Finite r2"
    and "\<bar>r2 - (rat_of_nat M * 60 + r1)\<bar> \<le> 2 ^ 26 / 2 ^ 54"
    by auto
  then have e2: "\<bar>r2 - (rat_of_nat M * 60 + r1)\<bar> \<le> 1 / 1000000" by simp
  have "\<bar>r2 * 1000\<bar> < 68719476736"
    using Mr M0 s0 s1 e1 e2 by linarith
  then have "\<bar>r2 * 1000\<bar> < 2 ^ 36" by simp
  from round64_error [OF this] obtain r3 where
    r3: "round64 (r2 * 1000) = Finite r3" and "\<bar>r3 - r2 * 1000\<bar> \<le> 2 ^ 36 / 2 ^ 54"
    by auto
  then have e3: "\<bar>r3 - r2 * 1000\<bar> \<le> 1 / 1000" by simp
  have V': "rat_of_nat T = rat_of_nat M * 60000 + s * 1000"
    using V by (simp add: algebra_simps)
  have close: "rat_of_nat T - 1 / 2 < r3" "r3 < rat_of_nat T + 1 / 2"
    using e1 e2 e3 unfolding V' by linarith+
  \<comment> \<open>the conversions and the operations\<close>
  have "round64 (rat_of_nat M) = Finite (rat_of_nat M)"
    using M by (intro round64_nat) simp
  with float_of_string_digits(1) [OF assms(1) assms(1)] assms(4)
  have fm: "float_of_string mm = Inr (Finite (rat_of_nat M))"
    by (simp add: M_def)
  have "rat_of_nat (dec_of 0 (ss @ xx)) / 10 ^ length xx = s"
    by (simp add: dec_of_append s_def f_def S_def X_def n_def add_divide_distrib)
  with float_of_string_digits(2) [OF assms(2) assms(3)] assms(5,6) r1
  have fs: "float_of_string (ss @ CHR ''.'' # xx) = Inr (Finite r1)"
    by simp
  have "round64 (rat_of_nat (M * 60)) = Finite (rat_of_nat (M * 60))"
    using M by (intro round64_nat) simp
  then have m60: "fmul (Finite (rat_of_nat M)) (Finite 60) = Finite (rat_of_nat M * 60)"
    by simp
  have tot: "fadd (Finite (rat_of_nat M * 60)) (Finite r1) = Finite r2"
    by (simp only: fadd.simps r2)
  have ms: "fmul (Finite r2) (Finite 1000) = Finite r3"
    by (simp only: fmul.simps r3)
  have colon: "CHR '':'' \<notin> set (ss @ CHR ''.'' # xx)"
    using digits_no_colon [OF assms(2)] digits_no_colon [OF assms(3)] by simp
  have "parse_lrc_time_try (time_tag mm (ss @ CHR ''.'' # xx))
      = int_of_float (fmul (fadd (fmul (Finite (rat_of_nat M)) (Finite 60)) (Finite r1)) (Finite 1000))"
    by (rule parse_lrc_time_try_floats [OF digits_no_colon [OF assms(1)] colon fm fs])
  also have "\<dots> = Inr (if 0 \<le> r3 then \<lfloor>r3\<rfloor> else \<lceil>r3\<rceil>)"
    by (simp only: m60 tot ms int_of_float.simps)
  finally have res: "parse_lrc_time_try (time_tag mm (ss @ CHR ''.'' # xx))
      = Inr (if 0 \<le> r3 then \<lfloor>r3\<rfloor> else \<lceil>r3\<rceil>)" .
  have "(if 0 \<le> r3 then \<lfloor>r3\<rfloor> else \<lceil>r3\<rceil>) = int T \<or> (if 0 \<le> r3 then \<lfloor>r3\<rfloor> else \<lceil>r3\<rceil>) = int T - 1"
  proof (cases "0 \<le> r3")
    case True
    have "rat_of_int (int T - 1) \<le> r3" using close(1) by simp
    then have lo: "int T - 1 \<le> \<lfloor>r3\<rfloor>" by (simp only: le_floor_iff)
    have "r3 < rat_of_int (int T + 1)" using close(2) by simp
    then have hi: "\<lfloor>r3\<rfloor> < int T + 1" by (simp only: floor_less_iff)
    from lo hi True show ?thesis by auto
  next
    case False
    with close(1) have "rat_of_nat T < 1" by linarith
    then have T0: "T = 0" by simp
    with close(1) have "- 1 < r3" by simp
    with False have "\<lceil>r3\<rceil> = 0" by (intro ceiling_unique) simp_all
    with False T0 show ?thesis by simp
  qed
  with res exact show ?thesis by auto
qed

section \<open>Lyrics: theorems\<close>

lemma scan_lines_takeWhile:
  "scan_lines ls pos i cur =
     (if takeWhile (\<lambda>l. fst l \<le> pos) ls = [] then cur
      else int (i + length (takeWhile (\<lambda>l. fst l \<le> pos) ls)) - 1)"
proof (induction ls arbitrary: i cur)
  case Nil
  show ?case by simp
next
  case (Cons l ls)
  obtain t x where l: "l = (t, x)" by (cases l)
  show ?case
  proof (cases "pos < t")
    case True
    with l show ?thesis by simp
  next
    case False
    with l Cons.IH [of "Suc i" "int i"] show ?thesis by simp
  qed
qed

lemma sorted_after_takeWhile:
  assumes "sorted (map fst ls)" and "length (takeWhile (\<lambda>l. fst l \<le> pos) ls) \<le> j" and "j < length ls"
  shows "pos < fst (ls ! j)"
proof -
  let ?k = "length (takeWhile (\<lambda>l. fst l \<le> pos) ls)"
  from assms have k: "?k < length ls" by simp
  then have "\<not> fst (ls ! ?k) \<le> pos"
    by (rule nth_length_takeWhile)
  moreover from assms have "fst (ls ! ?k) \<le> fst (ls ! j)"
    using sorted_nth_mono [of "map fst ls" ?k j] by simp
  ultimately show ?thesis by simp
qed

lemma update_lyrics_is_track: "is_track (update_lyrics t lrc)"
  by (simp add: is_track_def update_lyrics_def parse_lrc_def)

lemma update_position_is_track:
  assumes "is_track t"
  shows "is_track (update_position t pos)"
  using assms by (auto simp: is_track_def update_position_def Let_def)

text \<open>
  Claim C1. On a lyric track (lines in ascending order of time; cursor \<open>-1\<close> when
  there is no line) the cursor after \<open>update_position\<close> is the index of the last
  line whose time is at most the position, or \<open>-1\<close> when no line qualifies; it is
  \<open>-1\<close> for a track without lines, and for a negative position when no time is
  negative.
\<close>

theorem locate_last_line:
  assumes "is_track t"
  shows
    "((current_line (update_position t pos) = - 1 \<and>
       (\<forall>j < length (lyrics_lines t). pos < fst (lyrics_lines t ! j))) \<or>
      (0 \<le> current_line (update_position t pos) \<and>
       nat (current_line (update_position t pos)) < length (lyrics_lines t) \<and>
       fst (lyrics_lines t ! nat (current_line (update_position t pos))) \<le> pos \<and>
       (\<forall>j < length (lyrics_lines t).
           nat (current_line (update_position t pos)) < j \<longrightarrow> pos < fst (lyrics_lines t ! j)))) \<and>
     (lyrics_lines t = [] \<longrightarrow> current_line (update_position t pos) = - 1) \<and>
     (pos < 0 \<and> (\<forall>l \<in> set (lyrics_lines t). 0 \<le> fst l) \<longrightarrow>
        current_line (update_position t pos) = - 1)"
proof -
  let ?ls = "lyrics_lines t"
  let ?P = "\<lambda>l. fst l \<le> pos"
  let ?k = "length (takeWhile ?P ?ls)"
  let ?r = "current_line (update_position t pos)"
  from assms have srt: "sorted (map fst ?ls)" and emp: "?ls = [] \<longrightarrow> current_line t = - 1"
    by (simp_all add: is_track_def)
  have r: "?r = (if ?k = 0 then - 1 else int ?k - 1)"
  proof (cases "?ls = []")
    case True
    with emp show ?thesis by (simp add: update_position_def)
  next
    case False
    then show ?thesis
      by (simp add: update_position_def Let_def scan_lines_takeWhile)
  qed
  have after: "\<And>j. ?k \<le> j \<Longrightarrow> j < length ?ls \<Longrightarrow> pos < fst (?ls ! j)"
    using sorted_after_takeWhile [OF srt] by blast
  have first: ?thesis if "?k = 0"
  proof -
    from that r have "?r = - 1" by simp
    moreover from that after have "\<forall>j < length ?ls. pos < fst (?ls ! j)" by simp
    ultimately show ?thesis by simp
  qed
  have second: ?thesis if pos: "0 < ?k"
  proof -
    from pos r have rk: "?r = int ?k - 1" by simp
    then have nr: "nat ?r = ?k - 1" by simp
    have kl: "?k \<le> length ?ls" by (rule length_takeWhile_le)
    have "?ls ! (?k - 1) = takeWhile ?P ?ls ! (?k - 1)"
      using pos by (simp add: takeWhile_nth)
    moreover have "takeWhile ?P ?ls ! (?k - 1) \<in> set (takeWhile ?P ?ls)"
      using pos by (intro nth_mem) simp
    ultimately have le: "fst (?ls ! (?k - 1)) \<le> pos"
      using set_takeWhileD [of "?ls ! (?k - 1)" ?P ?ls] by simp
    have ne: "?ls \<noteq> []" using pos by auto
    have hd_le: "fst (?ls ! 0) \<le> pos"
    proof -
      have "?ls ! 0 = takeWhile ?P ?ls ! 0" using pos by (simp add: takeWhile_nth)
      moreover have "takeWhile ?P ?ls ! 0 \<in> set (takeWhile ?P ?ls)"
        using pos by (intro nth_mem) simp
      ultimately show ?thesis using set_takeWhileD [of "?ls ! 0" ?P ?ls] by simp
    qed
    have neg: "\<not> (pos < 0 \<and> (\<forall>l \<in> set ?ls. 0 \<le> fst l))"
    proof
      assume a: "pos < 0 \<and> (\<forall>l \<in> set ?ls. 0 \<le> fst l)"
      from ne have "?ls ! 0 \<in> set ?ls" by simp
      with a have "0 \<le> fst (?ls ! 0)" by blast
      with hd_le a show False by simp
    qed
    have "0 \<le> ?r" using rk pos by simp
    moreover have "nat ?r < length ?ls" using nr pos kl by linarith
    moreover have "fst (?ls ! nat ?r) \<le> pos" using nr le by simp
    moreover have "\<forall>j < length ?ls. nat ?r < j \<longrightarrow> pos < fst (?ls ! j)"
      using nr after by simp
    ultimately show ?thesis using ne neg by simp
  qed
  from first second show ?thesis by (cases "?k = 0") auto
qed

theorem locate_last_line_witness:
  "is_track abc_track \<and>
   current_line (update_position abc_track 1500) = 1 \<and>
   current_line (update_position abc_track 0) = 0 \<and>
   current_line (update_position abc_track (- 1)) = - 1 \<and>
   is_track (update_lyrics init_lyrics_tile []) \<and>
   current_line (update_position (update_lyrics init_lyrics_tile []) 1500) = - 1"
  using locate_last_line [of abc_track 1500] locate_last_line [of abc_track 0]
    locate_last_line [of abc_track "- 1"]
    locate_last_line [OF update_lyrics_is_track, of init_lyrics_tile "[]" 1500]
  by (simp add: abc_track_def is_track_def update_position_def update_lyrics_def
      parse_lrc_def parsed_lines_def init_lyrics_tile_def)

text \<open>
  Claim C4 as stated fails: a click on the only label of a track without lines (the
  placeholder label, index 0) is out of range, and the method returns normally
  without a seek and without an error.
\<close>

theorem resolve_seek_no_error_counterexample:
  "length (lyrics_lines (update_lyrics (init_lyrics_tile\<lparr>has_player := True\<rparr>) [])) \<le> 0 \<and>
   seek_line (update_lyrics (init_lyrics_tile\<lparr>has_player := True\<rparr>) []) 0 = Inr None \<and>
   on_lyrics_click (update_lyrics (init_lyrics_tile\<lparr>has_player := True\<rparr>) []) [True] 0 = Inr None"
  by (simp add: seek_line_def update_lyrics_def init_lyrics_tile_def parse_lrc_def parsed_lines_def)

text \<open>
  Claim C4, amended. The index of a label is never negative. For an index that is not
  below the number of lines the method does nothing and raises nothing; for an index
  in range it sends that line's time to the player, when a player is attached. No
  index makes it raise.
\<close>

theorem resolve_seek_guarded:
  "(length (lyrics_lines t) \<le> i \<longrightarrow> seek_line t i = Inr None) \<and>
   (i < length (lyrics_lines t) \<and> has_player t \<longrightarrow>
      seek_line t i = Inr (Some (fst (lyrics_lines t ! i)))) \<and>
   (\<forall>e. seek_line t i \<noteq> Inl e) \<and>
   on_lyrics_click t (replicate i False @ [True]) 0 = seek_line t i"
proof -
  have "on_lyrics_click t (replicate i False @ [True]) k = seek_line t (k + i)" for k
    by (induction i arbitrary: k) simp_all
  from this [of 0] show ?thesis by (simp add: seek_line_def)
qed

theorem resolve_seek_guarded_witness:
  "seek_line abc_track 3 = Inr None \<and> seek_line abc_track 1 = Inr (Some 1000) \<and>
   on_lyrics_click abc_track [False, True] 0 = Inr (Some 1000)"
  using resolve_seek_guarded [of abc_track 3] resolve_seek_guarded [of abc_track 1]
  by (simp add: abc_track_def)

text \<open>
  Claim C5. The lines \<open>parse_lrc\<close> leaves in \<open>lyrics_lines\<close> are in ascending
  order of time, and they are the lines appended during parsing: for every time, the
  lines with that time stand in the order in which they were appended.
\<close>

theorem parse_lrc_sorted_stable:
  "sorted (map fst (parse_lrc lrc)) \<and>
   (\<forall>t. filter (\<lambda>l. fst l = t) (parse_lrc lrc) = filter (\<lambda>l. fst l = t) (parsed_lines lrc)) \<and>
   length (parse_lrc lrc) = length (parsed_lines lrc) \<and>
   set (parse_lrc lrc) = set (parsed_lines lrc)"
  by (simp add: parse_lrc_def sort_key_stable)

lemma parsed_lines_three_lines:
  "parsed_lines three_lines = [(2000, ''b''), (1000, ''Hello''), (2000, ''Hello''), (2000, ''c'')]"
  by (simp add: three_lines_def float_eval time_eval lrc_eval)

theorem parse_lrc_sorted_stable_witness:
  "parsed_lines three_lines = [(2000, ''b''), (1000, ''Hello''), (2000, ''Hello''), (2000, ''c'')] \<and>
   parse_lrc three_lines = [(1000, ''Hello''), (2000, ''b''), (2000, ''Hello''), (2000, ''c'')] \<and>
   sorted (map fst (parse_lrc three_lines)) \<and>
   filter (\<lambda>l. fst l = 2000) (parse_lrc three_lines) = [(2000, ''b''), (2000, ''Hello''), (2000, ''c'')]"
  using parse_lrc_sorted_stable [of three_lines]
  by (simp add: parse_lrc_def parsed_lines_three_lines)

text \<open>
  Claim C2, evaluated where it fails. A line with two tags and text gives one entry per
  tag; the tag \<open>[00:00.00]\<close> gives none, alone or beside another tag: its time 0 is
  not greater than 0, the test that is meant to drop the tags that do not parse.
\<close>

theorem zero_tag_dropped:
  "parse_lrc ''[00:01.00][00:02.00]Hello'' = [(1000, ''Hello''), (2000, ''Hello'')] \<and>
   parse_lrc_time_try ''[00:00.00]'' = Inr 0 \<and>
   parse_lrc ''[00:00.00]Hello'' = [] \<and>
   parse_lrc ''[00:00.00][00:02.00]Hello'' = [(2000, ''Hello'')]"
  by (simp add: float_eval time_eval lrc_eval)

end
